theory Spec2Isabelle
  imports Main "HOL-Library.Char_ord" "HOL-Library.List_Lexorder"
begin

section \<open>The build descriptor \<^verbatim>\<open>setup.py\<close> and the test \<^verbatim>\<open>tests/main_test.py\<close>\<close>

text \<open>
  \<^verbatim>\<open>setup.py\<close> is a straight-line script: it appends \<^verbatim>\<open>./src\<close> to the module search
  path, imports the package being built to read its \<^verbatim>\<open>__version__\<close>, formats the
  current UTC time, and hands one keyword record to \<^verbatim>\<open>setuptools.setup\<close>. The script is
  modelled as a function from its inputs (the clock reading, the outcome of the import,
  the directory tree under \<^verbatim>\<open>./src\<close>, the interpreter's module state) to the record that
  \<^verbatim>\<open>setup\<close> receives, or to the exception that ends the script.
\<close>

subsection \<open>Clock readings: \<^verbatim>\<open>datetime.datetime\<close>\<close>

text \<open>
  A clock reading is the naive \<^verbatim>\<open>datetime\<close> object that \<^verbatim>\<open>datetime.datetime.utcnow()\<close>
  returns. Python's constructor accepts only the field ranges of \<open>valid_datetime\<close>
  (\<^verbatim>\<open>MINYEAR = 1\<close>, \<^verbatim>\<open>MAXYEAR = 9999\<close>, no leap second), so every field is a natural
  number.
\<close>

record datetime =
  year :: nat
  month :: nat
  day :: nat
  hour :: nat
  minute :: nat
  second :: nat
  microsecond :: nat

definition is_leap :: "nat \<Rightarrow> bool" where
  "is_leap y = (y mod 4 = 0 \<and> (y mod 100 \<noteq> 0 \<or> y mod 400 = 0))"

definition DAYS_IN_MONTH :: "int list" where
  "DAYS_IN_MONTH = [-1, 31, 28, 31, 30, 31, 30, 31, 31, 30, 31, 30, 31]"

definition DAYS_BEFORE_MONTH :: "int list" where
  "DAYS_BEFORE_MONTH = [-1, 0, 31, 59, 90, 120, 151, 181, 212, 243, 273, 304, 334]"

definition days_before_year :: "nat \<Rightarrow> int" where
  "days_before_year yr = (let y = int yr - 1 in y * 365 + y div 4 - y div 100 + y div 400)"

definition days_in_month :: "nat \<Rightarrow> nat \<Rightarrow> int" where
  "days_in_month yr m = (if m = 2 \<and> is_leap yr then 29 else DAYS_IN_MONTH ! m)"

definition days_before_month :: "nat \<Rightarrow> nat \<Rightarrow> int" where
  "days_before_month yr m = DAYS_BEFORE_MONTH ! m + (if m > 2 \<and> is_leap yr then 1 else 0)"

definition ymd2ord :: "nat \<Rightarrow> nat \<Rightarrow> nat \<Rightarrow> int" where
  "ymd2ord yr m d = days_before_year yr + days_before_month yr m + int d"

definition valid_datetime :: "datetime \<Rightarrow> bool" where
  "valid_datetime dt =
    (1 \<le> year dt \<and> year dt \<le> 9999 \<and>
     1 \<le> month dt \<and> month dt \<le> 12 \<and>
     1 \<le> day dt \<and> int (day dt) \<le> days_in_month (year dt) (month dt) \<and>
     hour dt \<le> 23 \<and> minute dt \<le> 59 \<and> second dt \<le> 59 \<and>
     microsecond dt \<le> 999999)"

definition toordinal :: "datetime \<Rightarrow> int" where
  "toordinal dt = ymd2ord (year dt) (month dt) (day dt)"

text \<open>
  \<^verbatim>\<open>self - other\<close> on two naive datetimes, as Python computes it from the proleptic
  Gregorian ordinals; the resulting \<^verbatim>\<open>timedelta\<close> is given in microseconds.
\<close>

definition datetime_sub :: "datetime \<Rightarrow> datetime \<Rightarrow> int" where
  "datetime_sub self other =
    (let days1 = toordinal self;
         days2 = toordinal other;
         secs1 = int (second self) + int (minute self) * 60 + int (hour self) * 3600;
         secs2 = int (second other) + int (minute other) * 60 + int (hour other) * 3600
     in ((days1 - days2) * 86400 + (secs1 - secs2)) * 1000000
          + (int (microsecond self) - int (microsecond other)))"

text \<open>
  Two readings lie in the same second when they agree on every field but the
  microsecond; one lies in an earlier second when its fields down to the second come
  first in the order year, month, day, hour, minute, second.
\<close>

definition same_second :: "datetime \<Rightarrow> datetime \<Rightarrow> bool" where
  "same_second a b =
    (year a = year b \<and> month a = month b \<and> day a = day b \<and>
     hour a = hour b \<and> minute a = minute b \<and> second a = second b)"

definition earlier_second :: "datetime \<Rightarrow> datetime \<Rightarrow> bool" where
  "earlier_second a b =
    (year a < year b \<or> year a = year b \<and>
      (month a < month b \<or> month a = month b \<and>
        (day a < day b \<or> day a = day b \<and>
          (hour a < hour b \<or> hour a = hour b \<and>
            (minute a < minute b \<or> minute a = minute b \<and> second a < second b)))))"

subsection \<open>\<^verbatim>\<open>strftime\<close>\<close>

text \<open>
  \<^verbatim>\<open>strftime\<close> copies the format string and replaces each directive. The directives that
  \<^verbatim>\<open>setup.py\<close> uses are interpreted as CPython prints them through the C library on Linux:
  \<^verbatim>\<open>%Y\<close> is the year as a decimal number without padding, so a year below 1000 has fewer
  than four digits; \<^verbatim>\<open>%m %d %H %M %S\<close> are padded with zeros to two digits. Any other
  directive is left in place.
\<close>

definition digit_char :: "nat \<Rightarrow> char" where
  "digit_char d = char_of (of_char CHR ''0'' + d)"

fun str_nat :: "nat \<Rightarrow> string" where
  "str_nat n = (if n < 10 then [digit_char n] else str_nat (n div 10) @ [digit_char (n mod 10)])"

declare str_nat.simps [simp del]

definition zfill :: "nat \<Rightarrow> string \<Rightarrow> string" where
  "zfill w s = replicate (w - length s) CHR ''0'' @ s"

definition directive :: "char \<Rightarrow> datetime \<Rightarrow> string option" where
  "directive c dt =
    (if c = CHR ''Y'' then Some (str_nat (year dt))
     else if c = CHR ''m'' then Some (zfill 2 (str_nat (month dt)))
     else if c = CHR ''d'' then Some (zfill 2 (str_nat (day dt)))
     else if c = CHR ''H'' then Some (zfill 2 (str_nat (hour dt)))
     else if c = CHR ''M'' then Some (zfill 2 (str_nat (minute dt)))
     else if c = CHR ''S'' then Some (zfill 2 (str_nat (second dt)))
     else if c = CHR ''%'' then Some ''%''
     else None)"

fun strftime :: "datetime \<Rightarrow> string \<Rightarrow> string" where
  "strftime dt [] = []"
| "strftime dt [c] = [c]"
| "strftime dt (c # d # fmt) =
    (if c = CHR ''%'' then
       (case directive d dt of
          Some s \<Rightarrow> s @ strftime dt fmt
        | None \<Rightarrow> c # d # strftime dt fmt)
     else c # strftime dt (d # fmt))"

subsection \<open>The version string\<close>

text \<open>
  \<^verbatim>\<open>local_version = datetime.datetime.utcnow().strftime("%Y%m%d.%H%M%S")\<close>, with the value
  of \<^verbatim>\<open>utcnow()\<close> as the argument, and the expression of the \<^verbatim>\<open>version\<close> keyword,
  \<^verbatim>\<open>test_databricks_asset_bundles.__version__ + "+" + local_version\<close>. The package's
  \<^verbatim>\<open>__init__.py\<close> is not part of the sources at hand, so its \<^verbatim>\<open>__version__\<close> string is a
  parameter.
\<close>

definition local_version :: "datetime \<Rightarrow> string" where
  "local_version now = strftime now ''%Y%m%d.%H%M%S''"

definition full_version :: "string \<Rightarrow> datetime \<Rightarrow> string" where
  "full_version base_version now = base_version @ ''+'' @ local_version now"

text \<open>
  The format the specification describes for the suffix, written out field by field:
  four digits of year, two each of month and day, a dot, two each of hour, minute and
  second, every field at fixed width.
\<close>

definition two_digits :: "nat \<Rightarrow> string" where
  "two_digits n = [digit_char (n div 10), digit_char (n mod 10)]"

definition four_digits :: "nat \<Rightarrow> string" where
  "four_digits n =
    [digit_char (n div 1000), digit_char (n div 100 mod 10),
     digit_char (n div 10 mod 10), digit_char (n mod 10)]"

definition spec_suffix :: "datetime \<Rightarrow> string" where
  "spec_suffix dt =
    four_digits (year dt) @ two_digits (month dt) @ two_digits (day dt) @ ''.'' @
    two_digits (hour dt) @ two_digits (minute dt) @ two_digits (second dt)"



subsection \<open>Package discovery\<close>

text \<open>
  A directory: its name, whether it holds the marker file \<^verbatim>\<open>__init__.py\<close>, and its
  subdirectories in the order the walk visits them.
\<close>

datatype dir = Dir (dname: string) (has_init: bool) (subdirs: "dir list")

text \<open>
  Modelled from the spec: \<^verbatim>\<open>find_packages\<close> belongs to setuptools and is not among the
  sources. The specification describes it as a walk of the tree under the root that
  returns, in order, the dotted path of every directory satisfying the marker-file
  predicate; the root itself is not a package.
\<close>

fun walk :: "string \<Rightarrow> dir \<Rightarrow> string list" where
  "walk prefix (Dir n marker subs) =
    (if marker then [prefix @ n] else []) @ concat (map (walk (prefix @ n @ ''.'')) subs)"

definition find_packages :: "(string \<Rightarrow> dir option) \<Rightarrow> string \<Rightarrow> string list" where
  "find_packages fs where' =
    (case fs where' of
       None \<Rightarrow> []
     | Some root \<Rightarrow> concat (map (walk '''') (subdirs root)))"

text \<open>Some directory at or below \<open>d\<close> holds the marker file.\<close>

fun has_package :: "dir \<Rightarrow> bool" where
  "has_package (Dir n marker subs) = (marker \<or> (\<exists>s \<in> set subs. has_package s))"

definition subpackage_exists :: "(string \<Rightarrow> dir option) \<Rightarrow> string \<Rightarrow> bool" where
  "subpackage_exists fs where' =
    (case fs where' of
       None \<Rightarrow> False
     | Some root \<Rightarrow> (\<exists>s \<in> set (subdirs root). has_package s))"

subsection \<open>The keyword record and the script\<close>

record setup_kwargs =
  name :: string
  version :: string
  url :: string
  author :: string
  description :: string
  packages :: "string list"
  package_dir :: "(string \<times> string) list"
  entry_points :: "(string \<times> string list) list"
  install_requires :: "string list"

definition setup_call :: "string \<Rightarrow> string \<Rightarrow> (string \<Rightarrow> dir option) \<Rightarrow> setup_kwargs" where
  "setup_call base_version local_version' fs =
    \<lparr> name = ''test_databricks_asset_bundles'',
      version = base_version @ ''+'' @ local_version',
      url = ''https://databricks.com'',
      author = ''daniel.iyiola@godevsuite072.onmicrosoft.com'',
      description = ''wheel file based on test_databricks_asset_bundles/src'',
      packages = find_packages fs ''./src'',
      package_dir = [('''', ''src'')],
      entry_points = [(''packages'', [''main=test_databricks_asset_bundles.main:main''])],
      install_requires = [''setuptools''] \<rparr>"

text \<open>
  Reading the base version can raise in two places. The import at line 16 raises when
  the package cannot be loaded; nothing is cached then. The attribute access at line 24
  raises \<^verbatim>\<open>AttributeError\<close> when the module, loaded and cached, has no \<^verbatim>\<open>__version__\<close>.
  A module object is represented by what the script reads from it: its \<^verbatim>\<open>__version__\<close>
  attribute, if it has one. The specification fixes the base version as a string.
\<close>

datatype error = ImportError | AttributeError

datatype py_module = Module (dunder_version: "string option")

text \<open>
  The interpreter state the script touches: \<^verbatim>\<open>sys.path\<close>, the module cache
  \<^verbatim>\<open>sys.modules\<close> and the number of times a package has been loaded from disk. The
  loader is the environment: given the number of earlier load attempts and the search
  path, it says what loading the package yields, an exception or a module.
\<close>

record process =
  sys_path :: "string list"
  sys_modules :: "string \<rightharpoonup> py_module"
  load_attempts :: nat

type_synonym loader = "nat \<Rightarrow> string list \<Rightarrow> error + py_module"

text \<open>\<^verbatim>\<open>import test_databricks_asset_bundles\<close> (line 16).\<close>

definition import_package :: "loader \<Rightarrow> process \<Rightarrow> (error + py_module) \<times> process" where
  "import_package ld p =
    (case sys_modules p ''test_databricks_asset_bundles'' of
       Some m \<Rightarrow> (Inr m, p)
     | None \<Rightarrow>
        (case ld (load_attempts p) (sys_path p) of
           Inl e \<Rightarrow> (Inl e, p\<lparr>load_attempts := Suc (load_attempts p)\<rparr>)
         | Inr m \<Rightarrow>
            (Inr m, p\<lparr>sys_modules := (sys_modules p)(''test_databricks_asset_bundles'' \<mapsto> m),
                      load_attempts := Suc (load_attempts p)\<rparr>)))"

text \<open>\<^verbatim>\<open>test_databricks_asset_bundles.__version__\<close> (line 24).\<close>

definition getattr_version :: "py_module \<Rightarrow> error + string" where
  "getattr_version m =
    (case dunder_version m of None \<Rightarrow> Inl AttributeError | Some v \<Rightarrow> Inr v)"

definition setup_py ::
  "loader \<Rightarrow> (string \<Rightarrow> dir option) \<Rightarrow> datetime \<Rightarrow> process \<Rightarrow> (error + setup_kwargs) \<times> process"
where
  "setup_py ld fs utcnow p =
    (let p1 = p\<lparr>sys_path := sys_path p @ [''./src'']\<rparr>;
         (r, p2) = import_package ld p1
     in case r of
          Inl e \<Rightarrow> (Inl e, p2)
        | Inr m \<Rightarrow>
            (let local_version' = local_version utcnow
             in case getattr_version m of
                  Inl e \<Rightarrow> (Inl e, p2)
                | Inr base_version \<Rightarrow>
                    (Inr (setup_call base_version local_version' fs), p2)))"

text \<open>
  What reading the base version yields in a given interpreter state: the import followed
  by the attribute access.
\<close>

definition read_base_version :: "loader \<Rightarrow> process \<Rightarrow> error + string" where
  "read_base_version ld p =
    (case fst (import_package ld p) of Inl e \<Rightarrow> Inl e | Inr m \<Rightarrow> getattr_version m)"

text \<open>
  The exit status of the process. An uncaught exception of the script ends the
  interpreter with status 1. Once the record is handed over, the status is whatever the
  call of \<^verbatim>\<open>setuptools.setup\<close> leads to; that tool is a parameter.
\<close>

definition exit_status :: "(setup_kwargs \<Rightarrow> nat) \<Rightarrow> error + setup_kwargs \<Rightarrow> nat" where
  "exit_status setup r = (case r of Inl e \<Rightarrow> 1 | Inr kwargs \<Rightarrow> setup kwargs)"

subsection \<open>\<^verbatim>\<open>tests/main_test.py\<close>\<close>

text \<open>
  \<^verbatim>\<open>test_main\<close> carries a \<^verbatim>\<open>skipif\<close> mark on two environment variables and asserts on the
  row count of the data frame. \<^verbatim>\<open>get_taxis\<close> and \<^verbatim>\<open>get_spark\<close> are not among the sources,
  so the loaded data frame is a parameter, a list of rows.
\<close>

datatype outcome = Skipped | Passed | Failed

definition getenv :: "(string \<rightharpoonup> string) \<Rightarrow> string \<Rightarrow> string option" where
  "getenv environ key = environ key"

definition count :: "'row list \<Rightarrow> int" where
  "count df = int (length df)"

definition skipif_condition :: "(string \<rightharpoonup> string) \<Rightarrow> bool" where
  "skipif_condition environ =
    (getenv environ ''CI'' = Some ''true'' \<or> getenv environ ''GITHUB_ACTIONS'' = Some ''true'')"

definition test_main :: "(string \<rightharpoonup> string) \<Rightarrow> 'row list \<Rightarrow> outcome" where
  "test_main environ taxis =
    (if skipif_condition environ then Skipped
     else if count taxis > 5 then Passed else Failed)"

subsection \<open>Sample environments\<close>

text \<open>
  Concrete inputs for the examples below: two clock readings one second apart, a fresh
  interpreter, loaders that find the package once \<^verbatim>\<open>./src\<close> is on the path, never,
  only from the second attempt on, or without a \<^verbatim>\<open>__version__\<close>, a packaging tool that
  succeeds, and a source tree with one package.
\<close>

definition frozen_clock :: datetime where
  "frozen_clock =
    \<lparr>year = 2024, month = 3, day = 5, hour = 8, minute = 9, second = 10, microsecond = 0\<rparr>"

definition later_clock :: datetime where
  "later_clock =
    \<lparr>year = 2024, month = 3, day = 5, hour = 8, minute = 9, second = 11, microsecond = 0\<rparr>"

definition fresh_process :: process where
  "fresh_process = \<lparr>sys_path = [], sys_modules = Map.empty, load_attempts = 0\<rparr>"

definition working_loader :: loader where
  "working_loader n path =
    (if ''./src'' \<in> set path then Inr (Module (Some ''0.0.1'')) else Inl ImportError)"

definition failing_loader :: loader where
  "failing_loader n path = Inl ImportError"

definition flaky_loader :: loader where
  "flaky_loader n path = (if n = 0 then Inl ImportError else Inr (Module (Some ''0.0.1'')))"

definition versionless_loader :: loader where
  "versionless_loader n path = Inr (Module None)"

definition successful_setup :: "setup_kwargs \<Rightarrow> nat" where
  "successful_setup kwargs = 0"

definition example_tree :: dir where
  "example_tree =
    Dir ''src'' False
      [Dir ''test_databricks_asset_bundles'' True [],
       Dir ''docs'' False []]"

definition example_fs :: "string \<Rightarrow> dir option" where
  "example_fs where' = (if where' = ''./src'' then Some example_tree else None)"

definition example_row :: "char list" where
  "example_row = ''trip''"

section \<open>The calendar\<close>

lemma month_cases:
  assumes "1 \<le> m" "m \<le> 12"
  shows "m = 1 \<or> m = 2 \<or> m = 3 \<or> m = 4 \<or> m = 5 \<or> m = 6 \<or> m = 7 \<or> m = 8 \<or> m = 9 \<or>
         m = 10 \<or> m = 11 \<or> m = (12::nat)"
  using assms by arith

lemma days_in_month_le: "1 \<le> m \<Longrightarrow> m \<le> 12 \<Longrightarrow> days_in_month y m \<le> 31"
  using month_cases [of m] by (auto simp: days_in_month_def DAYS_IN_MONTH_def)

section \<open>Decimal digits and fixed-width fields\<close>

lemma digit_char_0: "digit_char 0 = CHR ''0''"
  by code_simp

lemma of_char_digit: "d < 10 \<Longrightarrow> of_char (digit_char d) = 48 + d"
  by (simp add: digit_char_def)

lemma digit_char_less: "a < 10 \<Longrightarrow> b < 10 \<Longrightarrow> digit_char a < digit_char b \<longleftrightarrow> a < b"
  by (simp add: less_char_def of_char_digit)

lemma digit_char_eq: "a < 10 \<Longrightarrow> b < 10 \<Longrightarrow> digit_char a = digit_char b \<longleftrightarrow> a = b"
  by (metis linorder_neqE_nat digit_char_less less_irrefl)

lemma str_nat_1: "n < 10 \<Longrightarrow> str_nat n = [digit_char n]"
  by (subst str_nat.simps) simp

lemma str_nat_step: "10 \<le> n \<Longrightarrow> str_nat n = str_nat (n div 10) @ [digit_char (n mod 10)]"
  by (subst str_nat.simps) simp

lemma str_nat_2:
  "10 \<le> n \<Longrightarrow> n < 100 \<Longrightarrow> str_nat n = [digit_char (n div 10), digit_char (n mod 10)]"
  by (simp add: str_nat_step str_nat_1)

lemma div10_div10: "(n::nat) div 10 div 10 = n div 100"
  by (simp add: div_mult2_eq [symmetric])

lemma div10_div100: "(n::nat) div 10 div 100 = n div 1000"
  by (simp add: div_mult2_eq [symmetric])

lemma str_nat_3:
  assumes "100 \<le> n" "n < 1000"
  shows "str_nat n = [digit_char (n div 100), digit_char (n div 10 mod 10), digit_char (n mod 10)]"
proof -
  have b: "10 \<le> n div 10" "n div 10 < 100" using assms by linarith+
  have "str_nat n = str_nat (n div 10) @ [digit_char (n mod 10)]"
    using assms by (intro str_nat_step) linarith
  also have "str_nat (n div 10) = [digit_char (n div 10 div 10), digit_char (n div 10 mod 10)]"
    using b by (rule str_nat_2)
  finally show ?thesis by (simp only: div10_div10 append.simps)
qed

lemma str_nat_4:
  assumes "1000 \<le> n" "n < 10000"
  shows "str_nat n = four_digits n"
proof -
  have b: "100 \<le> n div 10" "n div 10 < 1000" using assms by linarith+
  have "str_nat n = str_nat (n div 10) @ [digit_char (n mod 10)]"
    using assms by (intro str_nat_step) linarith
  also have "str_nat (n div 10) =
      [digit_char (n div 10 div 100), digit_char (n div 10 div 10 mod 10),
       digit_char (n div 10 mod 10)]"
    using b by (rule str_nat_3)
  finally show ?thesis by (simp only: div10_div10 div10_div100 append.simps four_digits_def)
qed

lemma replicate_2: "replicate 2 c = [c, c]"
  by (simp add: numeral_2_eq_2)

lemma replicate_3: "replicate 3 c = [c, c, c]"
  by (simp add: numeral_3_eq_3)

lemma zfill_2: "n < 100 \<Longrightarrow> zfill 2 (str_nat n) = two_digits n"
proof (cases "n < 10")
  case True
  then show ?thesis by (simp add: zfill_def str_nat_1 digit_char_0 two_digits_def)
next
  case False
  assume "n < 100"
  with False show ?thesis by (simp add: zfill_def str_nat_2 two_digits_def)
qed

lemma zfill_4:
  assumes "n < 10000"
  shows "zfill 4 (str_nat n) = four_digits n"
proof -
  consider "n < 10" | "10 \<le> n" "n < 100" | "100 \<le> n" "n < 1000" | "1000 \<le> n" by linarith
  then show ?thesis
  proof cases
    case 1
    then show ?thesis
      by (simp add: zfill_def str_nat_1 digit_char_0 replicate_3 four_digits_def)
  next
    case 2
    then have "n div 1000 = 0" "n div 100 = 0" by simp_all
    with 2 show ?thesis
      by (simp add: zfill_def str_nat_2 digit_char_0 replicate_2 four_digits_def)
  next
    case 3
    then have "n div 1000 = 0" "n div 100 mod 10 = n div 100" by simp_all
    with 3 show ?thesis by (simp add: zfill_def str_nat_3 digit_char_0 four_digits_def)
  next
    case 4
    with assms show ?thesis by (simp add: zfill_def str_nat_4 four_digits_def)
  qed
qed

lemma local_version_unfold:
  "local_version dt =
     str_nat (year dt) @ zfill 2 (str_nat (month dt)) @ zfill 2 (str_nat (day dt)) @
     ''.'' @ zfill 2 (str_nat (hour dt)) @ zfill 2 (str_nat (minute dt)) @
     zfill 2 (str_nat (second dt))"
  by (simp add: local_version_def directive_def)

lemma local_version_fields:
  assumes "valid_datetime dt"
  shows "local_version dt =
     str_nat (year dt) @ two_digits (month dt) @ two_digits (day dt) @ ''.'' @
     two_digits (hour dt) @ two_digits (minute dt) @ two_digits (second dt)"
proof -
  have "day dt < 100"
    using assms days_in_month_le [of "month dt" "year dt"] by (simp add: valid_datetime_def)
  with assms show ?thesis
    by (simp add: local_version_unfold valid_datetime_def zfill_2)
qed


section \<open>Lexicographic order of fixed-width fields\<close>

lemma lex_base:
  fixes qa ra qb rb k :: nat
  assumes "ra < k" "rb < k"
  shows "(qa < qb \<or> qa = qb \<and> ra < rb) \<longleftrightarrow> k * qa + ra < k * qb + rb"
proof
  assume "qa < qb \<or> qa = qb \<and> ra < rb"
  then show "k * qa + ra < k * qb + rb"
  proof
    assume "qa < qb"
    then have "Suc qa \<le> qb" by simp
    then have "k * Suc qa \<le> k * qb" by (rule mult_le_mono2)
    with assms show ?thesis by simp
  next
    assume "qa = qb \<and> ra < rb"
    then show ?thesis by simp
  qed
next
  assume h: "k * qa + ra < k * qb + rb"
  show "qa < qb \<or> qa = qb \<and> ra < rb"
  proof (rule ccontr)
    assume "\<not> ?thesis"
    then consider "qb < qa" | "qa = qb" "rb \<le> ra" by linarith
    then show False
    proof cases
      case 1
      then have "Suc qb \<le> qa" by simp
      then have "k * Suc qb \<le> k * qa" by (rule mult_le_mono2)
      with assms h show False by simp
    next
      case 2
      with h show False by simp
    qed
  qed
qed

lemma lex_div_mod:
  fixes a b k :: nat
  assumes "0 < k"
  shows "(a div k < b div k \<or> a div k = b div k \<and> a mod k < b mod k) \<longleftrightarrow> a < b"
proof -
  have "a mod k < k" "b mod k < k" using assms by simp_all
  from lex_base [OF this, of "a div k" "b div k"] show ?thesis by simp
qed

lemma eq_div_mod:
  fixes a b k :: nat
  shows "(a div k = b div k \<and> a mod k = b mod k) \<longleftrightarrow> a = b"
  by (metis div_mult_mod_eq)

lemma two_digits_less:
  assumes "a < 100" "b < 100"
  shows "two_digits a < two_digits b \<longleftrightarrow> a < b"
proof -
  have d: "a div 10 < 10" "b div 10 < 10" "a mod 10 < 10" "b mod 10 < 10"
    using assms by simp_all
  have "two_digits a < two_digits b \<longleftrightarrow>
        (a div 10 < b div 10 \<or> a div 10 = b div 10 \<and> a mod 10 < b mod 10)"
    using d by (simp add: two_digits_def digit_char_less digit_char_eq)
  also have "\<dots> \<longleftrightarrow> a < b" by (rule lex_div_mod) simp
  finally show ?thesis .
qed

lemma two_digits_eq:
  assumes "a < 100" "b < 100"
  shows "two_digits a = two_digits b \<longleftrightarrow> a = b"
proof -
  have d: "a div 10 < 10" "b div 10 < 10" "a mod 10 < 10" "b mod 10 < 10"
    using assms by simp_all
  have "two_digits a = two_digits b \<longleftrightarrow> (a div 10 = b div 10 \<and> a mod 10 = b mod 10)"
    using d by (simp add: two_digits_def digit_char_eq)
  also have "\<dots> \<longleftrightarrow> a = b" by (rule eq_div_mod)
  finally show ?thesis .
qed



lemma append_less_same_length:
  "length a = length a' \<Longrightarrow>
   a @ b < a' @ b' \<longleftrightarrow> a < a' \<or> (a = a' \<and> b < (b' :: 'a :: linorder list))"
  by (induction a a' rule: list_induct2) auto

lemma mod100_div10: "(n::nat) mod 100 div 10 = n div 10 mod 10"
proof -
  have "n mod 100 = 10 * (n div 10 mod 10) + n mod 10"
    using mod_mult2_eq [of n 10 10] by simp
  then show ?thesis by simp
qed

lemma mod100_mod10: "(n::nat) mod 100 mod 10 = n mod 10"
  by (simp add: mod_mod_cancel)

lemma four_digits_split:
  "four_digits n = two_digits (n div 100) @ two_digits (n mod 100)"
  by (simp add: four_digits_def two_digits_def div_mult2_eq [symmetric] mod100_div10 mod100_mod10)

lemma length_two_digits: "length (two_digits n) = 2"
  by (simp add: two_digits_def)

lemma length_four_digits: "length (four_digits n) = 4"
  by (simp add: four_digits_def)

lemma four_digits_less:
  assumes "a < 10000" "b < 10000"
  shows "four_digits a < four_digits b \<longleftrightarrow> a < b"
proof -
  have d: "a div 100 < 100" "b div 100 < 100" "a mod 100 < 100" "b mod 100 < 100"
    using assms by simp_all
  have "four_digits a < four_digits b \<longleftrightarrow>
        (a div 100 < b div 100 \<or> a div 100 = b div 100 \<and> a mod 100 < b mod 100)"
    using d by (simp add: four_digits_split append_less_same_length length_two_digits
        two_digits_less two_digits_eq)
  also have "\<dots> \<longleftrightarrow> a < b" by (rule lex_div_mod) simp
  finally show ?thesis .
qed

lemma four_digits_eq:
  assumes "a < 10000" "b < 10000"
  shows "four_digits a = four_digits b \<longleftrightarrow> a = b"
proof -
  have d: "a div 100 < 100" "b div 100 < 100" "a mod 100 < 100" "b mod 100 < 100"
    using assms by simp_all
  have "four_digits a = four_digits b \<longleftrightarrow> (a div 100 = b div 100 \<and> a mod 100 = b mod 100)"
    using d by (simp add: four_digits_split length_two_digits two_digits_eq)
  also have "\<dots> \<longleftrightarrow> a = b" by (rule eq_div_mod)
  finally show ?thesis .
qed

lemma valid_datetime_bounds:
  assumes "valid_datetime dt"
  shows "year dt < 10000" "month dt < 100" "day dt < 100" "hour dt < 100" "minute dt < 100"
        "second dt < 100"
proof -
  have "int (day dt) \<le> 31"
    using assms days_in_month_le [of "month dt" "year dt"] by (simp add: valid_datetime_def)
  then show "day dt < 100" by simp
qed (use assms in \<open>simp_all add: valid_datetime_def\<close>)

lemma spec_suffix_less:
  assumes "valid_datetime a" "valid_datetime b"
  shows "spec_suffix a < spec_suffix b \<longleftrightarrow> earlier_second a b"
  using valid_datetime_bounds [OF assms(1)] valid_datetime_bounds [OF assms(2)]
  by (simp add: spec_suffix_def earlier_second_def append_less_same_length length_two_digits
      length_four_digits four_digits_less four_digits_eq two_digits_less two_digits_eq)

lemma spec_suffix_eq:
  assumes "valid_datetime a" "valid_datetime b"
  shows "spec_suffix a = spec_suffix b \<longleftrightarrow> same_second a b"
  using valid_datetime_bounds [OF assms(1)] valid_datetime_bounds [OF assms(2)]
  by (simp add: spec_suffix_def same_second_def length_two_digits
      length_four_digits four_digits_eq two_digits_eq)

section \<open>Ordinals\<close>

lemma div_step:
  fixes z k :: int
  assumes "0 < k"
  shows "z div k = (z - 1) div k + (if z mod k = 0 then 1 else 0)"
proof (cases "z mod k = 0")
  case True
  then obtain q where q: "z = k * q" by (metis mod_eq_0_iff_dvd dvd_def)
  have "(k * q - 1) div k = q - 1"
  proof (rule int_div_pos_eq [where r = "k - 1"])
    show "k * q - 1 = k * (q - 1) + (k - 1)" by (simp add: algebra_simps)
    show "0 \<le> k - 1" using assms by linarith
    show "k - 1 < k" by linarith
  qed
  with True q assms show ?thesis by simp
next
  case False
  have r: "0 \<le> z mod k" "z mod k < k" using assms by simp_all
  with False have r1: "1 \<le> z mod k" by linarith
  have "(z - 1) div k = z div k"
  proof (rule int_div_pos_eq [where r = "z mod k - 1"])
    have "z = k * (z div k) + z mod k" by simp
    then show "z - 1 = k * (z div k) + (z mod k - 1)" by linarith
    show "0 \<le> z mod k - 1" using r1 by linarith
    show "z mod k - 1 < k" using r by linarith
  qed
  with False show ?thesis by simp
qed

lemma is_leap_int:
  "is_leap y = (int y mod 4 = 0 \<and> (int y mod 100 \<noteq> 0 \<or> int y mod 400 = 0))"
proof -
  have "\<And>k. (y mod k = 0) = (int y mod int k = 0)"
    by (metis of_nat_mod of_nat_eq_0_iff)
  from this [of 4] this [of 100] this [of 400] show ?thesis
    by (simp add: is_leap_def)
qed

lemma leap_sum:
  fixes z a b c :: int
  assumes m1: "z mod 400 = 0 \<Longrightarrow> z mod 100 = 0" and m2: "z mod 100 = 0 \<Longrightarrow> z mod 4 = 0"
  shows "z * 365 + (a + (if z mod 4 = 0 then 1 else 0)) - (b + (if z mod 100 = 0 then 1 else 0)) + (c + (if z mod 400 = 0 then 1 else 0))
     = (z - 1) * 365 + a - b + c + 365 + (if z mod 4 = 0 \<and> (z mod 100 \<noteq> 0 \<or> z mod 400 = 0) then 1 else 0)"
proof (cases "z mod 400 = 0")
  case True
  with m1 m2 show ?thesis by simp
next
  case n400: False
  show ?thesis
  proof (cases "z mod 100 = 0")
    case True
    with n400 m2 show ?thesis by simp
  next
    case False
    with n400 show ?thesis by (cases "z mod 4 = 0") simp_all
  qed
qed

lemma mod_400_100: "(z::int) mod 400 = 0 \<Longrightarrow> z mod 100 = 0"
proof -
  assume "z mod 400 = 0"
  then have "400 dvd z" by (simp add: mod_eq_0_iff_dvd)
  moreover have "(100::int) dvd 400" by simp
  ultimately have "100 dvd z" by (metis dvd_trans)
  then show ?thesis by (simp add: mod_eq_0_iff_dvd)
qed

lemma mod_100_4: "(z::int) mod 100 = 0 \<Longrightarrow> z mod 4 = 0"
proof -
  assume "z mod 100 = 0"
  then have "100 dvd z" by (simp add: mod_eq_0_iff_dvd)
  moreover have "(4::int) dvd 100" by simp
  ultimately have "4 dvd z" by (metis dvd_trans)
  then show ?thesis by (simp add: mod_eq_0_iff_dvd)
qed

lemma days_before_year_Suc:
  "days_before_year (Suc y) = days_before_year y + 365 + (if is_leap y then 1 else 0)"
proof -
  define z where "z = int y"
  define a where "a = (z - 1) div 4"
  define b where "b = (z - 1) div 100"
  define c where "c = (z - 1) div 400"
  have s4: "z div 4 = a + (if z mod 4 = 0 then 1 else 0)"
    unfolding a_def by (rule div_step) simp
  have s100: "z div 100 = b + (if z mod 100 = 0 then 1 else 0)"
    unfolding b_def by (rule div_step) simp
  have s400: "z div 400 = c + (if z mod 400 = 0 then 1 else 0)"
    unfolding c_def by (rule div_step) simp
  have l: "days_before_year (Suc y) = z * 365 + z div 4 - z div 100 + z div 400"
    by (simp add: days_before_year_def z_def Let_def)
  have r: "days_before_year y = (z - 1) * 365 + a - b + c"
    by (simp add: days_before_year_def z_def Let_def a_def b_def c_def)
  have lp: "is_leap y = (z mod 4 = 0 \<and> (z mod 100 \<noteq> 0 \<or> z mod 400 = 0))"
    by (simp add: is_leap_int z_def)
  show ?thesis
    unfolding l r lp s4 s100 s400
    by (rule leap_sum) (fact mod_400_100 mod_100_4)+
qed

lemma days_before_year_mono: "y \<le> y' \<Longrightarrow> days_before_year y \<le> days_before_year y'"
proof (induction rule: dec_induct)
  case base
  show ?case by simp
next
  case (step n)
  then show ?case by (simp add: days_before_year_Suc)
qed

lemma days_before_month_step:
  assumes "1 \<le> m" "m < 12"
  shows "days_before_month y (Suc m) = days_before_month y m + days_in_month y m"
proof -
  from assms have "m = 1 \<or> m = 2 \<or> m = 3 \<or> m = 4 \<or> m = 5 \<or> m = 6 \<or> m = 7 \<or> m = 8 \<or> m = 9 \<or>
         m = 10 \<or> m = 11" by arith
  then show ?thesis
    by (elim disjE) (simp_all add: days_before_month_def days_in_month_def
        DAYS_BEFORE_MONTH_def DAYS_IN_MONTH_def eval_nat_numeral)
qed

lemma days_in_month_pos: "1 \<le> m \<Longrightarrow> m \<le> 12 \<Longrightarrow> 1 \<le> days_in_month y m"
  using month_cases [of m] by (auto simp: days_in_month_def DAYS_IN_MONTH_def)

lemma days_before_month_mono:
  assumes "1 \<le> m" "m \<le> m'" "m' \<le> 12"
  shows "days_before_month y m \<le> days_before_month y m'"
  using assms(2,1,3)
proof (induction rule: dec_induct)
  case base
  show ?case by simp
next
  case (step n)
  then have n: "1 \<le> n" "n < 12" by simp_all
  from days_before_month_step [OF n, of y] days_in_month_pos [of n y] step n
  show ?case by simp
qed

lemma days_before_month_nonneg: "1 \<le> m \<Longrightarrow> m \<le> 12 \<Longrightarrow> 0 \<le> days_before_month y m"
  using month_cases [of m] by (auto simp: days_before_month_def DAYS_BEFORE_MONTH_def)

lemma day_of_year_le:
  assumes "1 \<le> m" "m \<le> 12" "int d \<le> days_in_month y m"
  shows "days_before_month y m + int d \<le> 365 + (if is_leap y then 1 else 0)"
proof (cases "m = 12")
  case True
  with assms show ?thesis
    by (simp add: days_before_month_def days_in_month_def DAYS_BEFORE_MONTH_def DAYS_IN_MONTH_def)
next
  case False
  with assms have lt: "m < 12" by simp
  have "days_before_month y m + int d \<le> days_before_month y (Suc m)"
    using days_before_month_step [OF assms(1) lt, of y] assms(3) by simp
  also have "\<dots> \<le> days_before_month y 12"
    using lt assms(1) by (intro days_before_month_mono) simp_all
  also have "\<dots> \<le> 365 + (if is_leap y then 1 else 0)"
    by (simp add: days_before_month_def DAYS_BEFORE_MONTH_def)
  finally show ?thesis .
qed

lemma toordinal_less:
  assumes va: "valid_datetime a" and vb: "valid_datetime b"
    and lt: "year a < year b \<or> year a = year b \<and>
             (month a < month b \<or> month a = month b \<and> day a < day b)"
  shows "toordinal a < toordinal b"
proof -
  have ma: "1 \<le> month a" "month a \<le> 12" "int (day a) \<le> days_in_month (year a) (month a)"
    using va by (simp_all add: valid_datetime_def)
  have mb: "1 \<le> month b" "month b \<le> 12" "1 \<le> int (day b)"
    using vb by (simp_all add: valid_datetime_def)
  have nb: "0 \<le> days_before_month (year b) (month b)"
    using mb by (intro days_before_month_nonneg)
  consider (y) "year a < year b"
    | (m) "year a = year b" "month a < month b"
    | (d) "year a = year b" "month a = month b" "day a < day b"
    using lt by blast
  then show ?thesis
  proof cases
    case y
    have "toordinal a \<le> days_before_year (Suc (year a))"
      using day_of_year_le [OF ma] by (simp add: toordinal_def ymd2ord_def days_before_year_Suc)
    also have "\<dots> \<le> days_before_year (year b)"
      using y by (intro days_before_year_mono) simp
    also have "\<dots> < toordinal b"
      using nb mb by (simp add: toordinal_def ymd2ord_def)
    finally show ?thesis .
  next
    case m
    then have lt12: "month a < 12" using mb by simp
    have "days_before_month (year a) (month a) + int (day a)
          \<le> days_before_month (year a) (Suc (month a))"
      using days_before_month_step [OF ma(1) lt12, of "year a"] ma(3) by simp
    also have "\<dots> \<le> days_before_month (year a) (month b)"
      using m mb by (intro days_before_month_mono) simp_all
    finally show ?thesis
      using m mb by (simp add: toordinal_def ymd2ord_def)
  next
    case d
    then show ?thesis by (simp add: toordinal_def ymd2ord_def)
  qed
qed

lemma seconds_of_day_le:
  fixes h m s h' m' s' :: nat
  assumes "m \<le> 59" "s \<le> 59" "m' \<le> 59" "s' \<le> 59"
    and "\<not> (h < h' \<or> h = h' \<and> (m < m' \<or> m = m' \<and> s < s'))"
  shows "int s' + int m' * 60 + int h' * 3600 \<le> int s + int m * 60 + int h * 3600"
  using assms by auto

lemma sub_ge_second_earlier:
  assumes va: "valid_datetime a" and vb: "valid_datetime b"
    and ge: "1000000 \<le> datetime_sub b a"
  shows "earlier_second a b"
proof (rule ccontr)
  assume ne: "\<not> earlier_second a b"
  have ra: "hour a \<le> 23" "minute a \<le> 59" "second a \<le> 59" "microsecond a \<le> 999999"
    using va by (simp_all add: valid_datetime_def)
  have rb: "hour b \<le> 23" "minute b \<le> 59" "second b \<le> 59" "microsecond b \<le> 999999"
    using vb by (simp_all add: valid_datetime_def)
  define sa where "sa = int (second a) + int (minute a) * 60 + int (hour a) * 3600"
  define sb where "sb = int (second b) + int (minute b) * 60 + int (hour b) * 3600"
  have sub: "datetime_sub b a =
      ((toordinal b - toordinal a) * 86400 + (sb - sa)) * 1000000
        + (int (microsecond b) - int (microsecond a))"
    by (simp add: datetime_sub_def Let_def sa_def sb_def)
  have sb_le: "sb \<le> 86399" and sa_ge: "0 \<le> sa"
    using rb by (simp_all add: sa_def sb_def)
  have us: "int (microsecond b) - int (microsecond a) \<le> 999999"
    using rb by simp
  consider (before) "year b < year a \<or> year b = year a \<and>
             (month b < month a \<or> month b = month a \<and> day b < day a)"
    | (same) "year a = year b" "month a = month b" "day a = day b"
    using ne unfolding earlier_second_def by (meson linorder_neqE_nat)
  then show False
  proof cases
    case before
    from toordinal_less [OF vb va before] have "toordinal b - toordinal a \<le> - 1" by simp
    then have "(toordinal b - toordinal a) * 86400 \<le> - 86400" by simp
    with sb_le sa_ge have "(toordinal b - toordinal a) * 86400 + (sb - sa) \<le> - 1" by simp
    then have "((toordinal b - toordinal a) * 86400 + (sb - sa)) * 1000000 \<le> - 1000000"
      by simp
    with us ge sub show False by simp
  next
    case same
    then have t: "toordinal b = toordinal a" by (simp add: toordinal_def)
    from ne same have "\<not> (hour a < hour b \<or> hour a = hour b \<and>
        (minute a < minute b \<or> minute a = minute b \<and> second a < second b))"
      by (simp add: earlier_second_def)
    from seconds_of_day_le [OF ra(2,3) rb(2,3) this] have "sb \<le> sa"
      by (simp add: sa_def sb_def)
    then have "(sb - sa) * 1000000 \<le> 0" by simp
    with us ge sub t show False by simp
  qed
qed

section \<open>The suffix as a string\<close>



lemma datetime_sub_swap: "datetime_sub a b = - datetime_sub b a"
  by (simp add: datetime_sub_def Let_def)


text \<open>The year without padding: its digits are the last digits of the four-digit form.\<close>

lemma str_nat_eq:
  assumes "a < 10000" "b < 10000" "str_nat a = str_nat b"
  shows "a = b"
proof -
  from assms(3) have "zfill 4 (str_nat a) = zfill 4 (str_nat b)" by simp
  then have "four_digits a = four_digits b" using assms(1,2) by (simp add: zfill_4)
  then show ?thesis using assms(1,2) by (simp add: four_digits_eq)
qed


lemma set_str_nat:
  assumes "n < 10000"
  shows "set (str_nat n) \<subseteq> set (four_digits n)"
proof -
  have "set (str_nat n) \<subseteq> set (zfill 4 (str_nat n))" by (auto simp: zfill_def)
  with assms show ?thesis by (simp add: zfill_4)
qed

lemma plus_not_digit: "d < 10 \<Longrightarrow> digit_char d \<noteq> CHR ''+''"
proof
  assume "d < 10" "digit_char d = CHR ''+''"
  then have "of_char (digit_char d) = (43::nat)" by simp
  with \<open>d < 10\<close> show False by (simp add: of_char_digit)
qed

lemma plus_not_in_four_digits:
  assumes "n < 10000"
  shows "CHR ''+'' \<notin> set (four_digits n)"
proof -
  have "n div 1000 < 10" "n div 100 mod 10 < 10" "n div 10 mod 10 < 10" "n mod 10 < 10"
    using assms by simp_all
  then show ?thesis
    using plus_not_digit [of "n div 1000"] plus_not_digit [of "n div 100 mod 10"]
      plus_not_digit [of "n div 10 mod 10"] plus_not_digit [of "n mod 10"]
    by (auto simp: four_digits_def)
qed

lemma plus_not_in_two_digits:
  assumes "n < 100"
  shows "CHR ''+'' \<notin> set (two_digits n)"
proof -
  have "n div 10 < 10" "n mod 10 < 10" using assms by simp_all
  then show ?thesis
    using plus_not_digit [of "n div 10"] plus_not_digit [of "n mod 10"]
    by (auto simp: two_digits_def)
qed

lemma plus_not_in_local_version:
  assumes "valid_datetime dt"
  shows "CHR ''+'' \<notin> set (local_version dt)"
proof -
  note b = valid_datetime_bounds [OF assms]
  have "CHR ''+'' \<notin> set (str_nat (year dt))"
    using set_str_nat [OF b(1)] plus_not_in_four_digits [OF b(1)] by blast
  then show ?thesis
    using b by (simp add: local_version_fields [OF assms] plus_not_in_two_digits)
qed

lemma after_last_separator:
  assumes "c \<notin> set ys" "c \<notin> set ys'" "xs @ c # ys = xs' @ c # ys'"
  shows "ys = ys'"
proof -
  have "u = v" if "c \<notin> set u" "c \<notin> set v" "u @ c # x = v @ c # y" for u v :: "'a list" and x y
    using that
  proof (induction u arbitrary: v)
    case Nil
    then show ?case by (cases v) auto
  next
    case (Cons a u)
    then show ?case by (cases v) auto
  qed
  from this [of "rev ys" "rev ys'" "rev xs" "rev xs'"] assms
  have "rev ys = rev ys'" by (metis rev.simps(2) rev_append set_rev append_assoc append_Cons append_Nil)
  then show ?thesis by simp
qed

lemma local_version_same_second:
  assumes "valid_datetime a" "valid_datetime b" "local_version a = local_version b"
  shows "same_second a b"
proof -
  note ba = valid_datetime_bounds [OF assms(1)] and bb = valid_datetime_bounds [OF assms(2)]
  let ?r = "\<lambda>dt. two_digits (month dt) @ two_digits (day dt) @ ''.'' @
     two_digits (hour dt) @ two_digits (minute dt) @ two_digits (second dt)"
  have "str_nat (year a) @ ?r a = str_nat (year b) @ ?r b"
    using assms(3) by (simp only: local_version_fields [OF assms(1)] local_version_fields [OF assms(2)])
  moreover have "length (?r a) = length (?r b)" by (simp add: length_two_digits)
  ultimately have "str_nat (year a) = str_nat (year b) \<and> ?r a = ?r b"
    by (metis append_eq_append_conv)
  then have y: "str_nat (year a) = str_nat (year b)" and r: "?r a = ?r b"
    by blast+
  from y have "year a = year b" using ba(1) bb(1) by (intro str_nat_eq)
  moreover from r have "month a = month b \<and> day a = day b \<and> hour a = hour b \<and>
      minute a = minute b \<and> second a = second b"
    using ba bb by (simp add: length_two_digits two_digits_eq)
  ultimately show ?thesis by (simp add: same_second_def)
qed



lemma local_version_distinct:
  assumes "valid_datetime a" "valid_datetime b" "1000000 \<le> \<bar>datetime_sub b a\<bar>"
  shows "local_version a \<noteq> local_version b"
proof
  assume "local_version a = local_version b"
  with assms(1,2) have s: "same_second a b" by (rule local_version_same_second)
  have "earlier_second a b \<or> earlier_second b a"
  proof (cases "0 \<le> datetime_sub b a")
    case True
    with assms show ?thesis by (simp add: sub_ge_second_earlier)
  next
    case False
    with assms(3) have "1000000 \<le> datetime_sub a b" by (simp add: datetime_sub_swap [of a b])
    with assms show ?thesis by (simp add: sub_ge_second_earlier)
  qed
  with s show False by (auto simp: same_second_def earlier_second_def)
qed

section \<open>The script\<close>

lemma walk_nonempty: "has_package d \<Longrightarrow> walk prefix d \<noteq> []"
proof (induction d arbitrary: prefix)
  case (Dir n marker subs)
  show ?case
  proof (cases marker)
    case True
    then show ?thesis by simp
  next
    case False
    with Dir.prems obtain s where s: "s \<in> set subs" "has_package s" by auto
    with Dir.IH have "walk (prefix @ n @ ''.'') s \<noteq> []" by blast
    with s(1) show ?thesis by auto
  qed
qed

lemma find_packages_nonempty:
  "subpackage_exists fs w \<Longrightarrow> find_packages fs w \<noteq> []"
proof -
  assume "subpackage_exists fs w"
  then obtain root s where r: "fs w = Some root" "s \<in> set (subdirs root)" "has_package s"
    by (auto simp: subpackage_exists_def split: option.splits)
  from r(3) have "walk [] s \<noteq> []" by (rule walk_nonempty)
  with r(1,2) show ?thesis by (auto simp: find_packages_def)
qed

lemma setup_py_result:
  "fst (setup_py ld fs now p) =
    (case read_base_version ld (p\<lparr>sys_path := sys_path p @ [''./src'']\<rparr>) of
       Inl e \<Rightarrow> Inl e
     | Inr v \<Rightarrow> Inr (setup_call v (local_version now) fs))"
  by (simp add: setup_py_def read_base_version_def Let_def split: prod.splits sum.splits)

lemma setup_py_state:
  "snd (setup_py ld fs now p) = snd (import_package ld (p\<lparr>sys_path := sys_path p @ [''./src'']\<rparr>))"
  by (simp add: setup_py_def Let_def split: prod.splits sum.splits)

lemma import_package_attempts:
  "load_attempts (snd (import_package ld p)) =
    (if sys_modules p ''test_databricks_asset_bundles'' = None
     then Suc (load_attempts p) else load_attempts p)"
  by (simp add: import_package_def split: option.splits sum.splits)

lemma import_package_cached:
  "fst (import_package ld p) = Inr m \<Longrightarrow>
   sys_modules (snd (import_package ld p)) ''test_databricks_asset_bundles'' = Some m"
  by (auto simp: import_package_def split: option.splits sum.splits)

lemma import_package_hit:
  "sys_modules p ''test_databricks_asset_bundles'' = Some m \<Longrightarrow> import_package ld p = (Inr m, p)"
  by (simp add: import_package_def)

lemma read_base_version_Inr:
  "read_base_version ld p = Inr v \<longleftrightarrow>
   (\<exists>m. fst (import_package ld p) = Inr m \<and> dunder_version m = Some v)"
  by (auto simp: read_base_version_def getattr_version_def split: sum.splits option.splits)

lemma read_base_version_fails_iff:
  "read_base_version ld p = Inl e \<longleftrightarrow>
     (sys_modules p ''test_databricks_asset_bundles'' = None \<and>
      ld (load_attempts p) (sys_path p) = Inl e) \<or>
     (e = AttributeError \<and>
      (\<exists>m. dunder_version m = None \<and>
         (sys_modules p ''test_databricks_asset_bundles'' = Some m \<or>
          sys_modules p ''test_databricks_asset_bundles'' = None \<and>
          ld (load_attempts p) (sys_path p) = Inr m)))"
  by (auto simp: read_base_version_def import_package_def getattr_version_def
      split: sum.splits option.splits)

section \<open>The claims\<close>

text \<open>
  C1. With base version \<^verbatim>\<open>0.0.1\<close> and the clock frozen at 2024-03-05 08:09:10 UTC, the
  full version string is \<^verbatim>\<open>0.0.1+20240305.080910\<close>.
\<close>

theorem C1_full_version_example:
  "full_version ''0.0.1''
     \<lparr>year = 2024, month = 3, day = 5, hour = 8, minute = 9, second = 10, microsecond = 0\<rparr>
   = ''0.0.1+20240305.080910''"
  by code_simp







text \<open>
  C4. Two clock readings within the same second give the same suffix: the suffix
  depends on the fields down to the second only.
\<close>

theorem C4_same_second_same_suffix:
  assumes "same_second a b"
  shows "local_version a = local_version b"
  using assms by (simp add: local_version_unfold same_second_def)

theorem C4_same_second_same_suffix_witness:
  "same_second \<lparr>year = 2024, month = 3, day = 5, hour = 8, minute = 9, second = 10,
                 microsecond = 1\<rparr>
               \<lparr>year = 2024, month = 3, day = 5, hour = 8, minute = 9, second = 10,
                 microsecond = 999999\<rparr> \<and>
   local_version \<lparr>year = 2024, month = 3, day = 5, hour = 8, minute = 9, second = 10,
                   microsecond = 1\<rparr>
   = local_version \<lparr>year = 2024, month = 3, day = 5, hour = 8, minute = 9, second = 10,
                     microsecond = 999999\<rparr>"
proof -
  let ?a = "\<lparr>year = 2024, month = 3, day = 5, hour = 8, minute = 9, second = 10,
             microsecond = 1\<rparr>"
  let ?b = "\<lparr>year = 2024, month = 3, day = 5, hour = 8, minute = 9, second = 10,
             microsecond = 999999\<rparr>"
  have h: "same_second ?a ?b" by (simp add: same_second_def)
  from C4_same_second_same_suffix [OF h] h show ?thesis by simp
qed

text \<open>
  C5. Whenever some directory under \<^verbatim>\<open>./src\<close> satisfies the package-marker predicate, the
  record handed to the packaging tool has a non-empty \<^verbatim>\<open>packages\<close> list. The script passes
  on what \<^verbatim>\<open>find_packages(where="./src")\<close> returns, unchanged.
\<close>

theorem C5_packages_nonempty:
  assumes "subpackage_exists fs ''./src''"
    and "fst (setup_py ld fs utcnow p) = Inr kwargs"
  shows "packages kwargs \<noteq> []"
proof -
  from assms(2) obtain v where "kwargs = setup_call v (local_version utcnow) fs"
    by (auto simp: setup_py_result split: sum.splits)
  with find_packages_nonempty [OF assms(1)] show ?thesis by (simp add: setup_call_def)
qed

theorem C5_packages_nonempty_witness:
  "subpackage_exists example_fs ''./src'' \<and>
   fst (setup_py working_loader example_fs frozen_clock fresh_process)
     = Inr (setup_call ''0.0.1'' (local_version frozen_clock) example_fs) \<and>
   packages (setup_call ''0.0.1'' (local_version frozen_clock) example_fs) \<noteq> []"
proof -
  have h: "subpackage_exists example_fs ''./src''"
    by (simp add: subpackage_exists_def example_fs_def example_tree_def)
  have r: "fst (setup_py working_loader example_fs frozen_clock fresh_process)
     = Inr (setup_call ''0.0.1'' (local_version frozen_clock) example_fs)"
    by (simp add: setup_py_result read_base_version_def import_package_def getattr_version_def working_loader_def fresh_process_def)
  from C5_packages_nonempty [OF h r] h r show ?thesis by (intro conjI)
qed

text \<open>
  C6. Computing the full version fails in exactly one case: the base version cannot be
  read. That is, the package is not yet loaded and loading it raises, or the module
  (cached, or just loaded) has no \<^verbatim>\<open>__version__\<close>. Then the script ends with that
  exception and a non-zero exit status, whatever the packaging tool would do. An
  invocation makes one load attempt when the package is not cached and none when it is
  (no retry). In every other case the script hands a record with the full version to the
  packaging tool, whose call decides the exit status.
\<close>

theorem C6_version_unreadable_only_failure:
  "(fst (setup_py ld fs utcnow p) = Inl e \<longleftrightarrow>
      (sys_modules p ''test_databricks_asset_bundles'' = None \<and>
       ld (load_attempts p) (sys_path p @ [''./src'']) = Inl e) \<or>
      (e = AttributeError \<and>
       (\<exists>m. dunder_version m = None \<and>
          (sys_modules p ''test_databricks_asset_bundles'' = Some m \<or>
           sys_modules p ''test_databricks_asset_bundles'' = None \<and>
           ld (load_attempts p) (sys_path p @ [''./src'']) = Inr m)))) \<and>
   (fst (setup_py ld fs utcnow p) = Inl e \<longrightarrow>
      exit_status setup (fst (setup_py ld fs utcnow p)) \<noteq> 0) \<and>
   load_attempts (snd (setup_py ld fs utcnow p)) =
     (if sys_modules p ''test_databricks_asset_bundles'' = None
      then Suc (load_attempts p) else load_attempts p) \<and>
   ((\<forall>e'. fst (setup_py ld fs utcnow p) \<noteq> Inl e') \<longrightarrow>
      (\<exists>v. fst (setup_py ld fs utcnow p) = Inr (setup_call v (local_version utcnow) fs) \<and>
           version (setup_call v (local_version utcnow) fs) = full_version v utcnow \<and>
           exit_status setup (fst (setup_py ld fs utcnow p))
             = setup (setup_call v (local_version utcnow) fs)))"
proof -
  let ?p1 = "p\<lparr>sys_path := sys_path p @ [''./src'']\<rparr>"
  let ?r = "setup_py ld fs utcnow p"
  have a: "fst ?r = Inl e \<longleftrightarrow> read_base_version ld ?p1 = Inl e"
    by (simp add: setup_py_result split: sum.splits)
  have 1: "fst ?r = Inl e \<longleftrightarrow>
      (sys_modules p ''test_databricks_asset_bundles'' = None \<and>
       ld (load_attempts p) (sys_path p @ [''./src'']) = Inl e) \<or>
      (e = AttributeError \<and>
       (\<exists>m. dunder_version m = None \<and>
          (sys_modules p ''test_databricks_asset_bundles'' = Some m \<or>
           sys_modules p ''test_databricks_asset_bundles'' = None \<and>
           ld (load_attempts p) (sys_path p @ [''./src'']) = Inr m)))"
    unfolding a by (simp add: read_base_version_fails_iff)
  have 2: "exit_status setup (fst ?r) \<noteq> 0" if "fst ?r = Inl e"
    using that by (simp add: exit_status_def)
  have 3: "load_attempts (snd ?r) =
     (if sys_modules p ''test_databricks_asset_bundles'' = None
      then Suc (load_attempts p) else load_attempts p)"
    by (simp add: setup_py_state import_package_attempts)
  have 4: "\<exists>v. fst ?r = Inr (setup_call v (local_version utcnow) fs) \<and>
           version (setup_call v (local_version utcnow) fs) = full_version v utcnow \<and>
           exit_status setup (fst ?r) = setup (setup_call v (local_version utcnow) fs)"
    if "\<forall>e'. fst ?r \<noteq> Inl e'"
  proof -
    from that obtain v where "read_base_version ld ?p1 = Inr v"
      by (cases "read_base_version ld ?p1") (auto simp: setup_py_result)
    then show ?thesis
      by (simp add: setup_py_result exit_status_def setup_call_def full_version_def)
  qed
  from 1 2 3 4 show ?thesis by blast
qed

theorem C6_version_unreadable_only_failure_witness:
  "fst (setup_py flaky_loader example_fs frozen_clock fresh_process) = Inl ImportError \<and>
   exit_status successful_setup
     (fst (setup_py flaky_loader example_fs frozen_clock fresh_process)) \<noteq> 0 \<and>
   load_attempts (snd (setup_py flaky_loader example_fs frozen_clock fresh_process)) = Suc 0 \<and>
   fst (setup_py versionless_loader example_fs frozen_clock fresh_process)
     = Inl AttributeError \<and>
   exit_status successful_setup
     (fst (setup_py versionless_loader example_fs frozen_clock fresh_process)) \<noteq> 0"
proof -
  have n: "sys_modules fresh_process ''test_databricks_asset_bundles'' = None"
    and z: "load_attempts fresh_process = 0"
    by (simp_all add: fresh_process_def)
  have f: "flaky_loader (load_attempts fresh_process) (sys_path fresh_process @ [''./src''])
      = Inl ImportError"
    by (simp add: fresh_process_def flaky_loader_def)
  have l: "versionless_loader (load_attempts fresh_process)
      (sys_path fresh_process @ [''./src'']) = Inr (Module None)"
    by (simp add: versionless_loader_def)
  have d: "dunder_version (Module None) = None" by simp
  from C6_version_unreadable_only_failure
    [of flaky_loader example_fs frozen_clock fresh_process ImportError successful_setup] n f
  have 1: "fst (setup_py flaky_loader example_fs frozen_clock fresh_process) = Inl ImportError \<and>
      exit_status successful_setup
        (fst (setup_py flaky_loader example_fs frozen_clock fresh_process)) \<noteq> 0 \<and>
      load_attempts (snd (setup_py flaky_loader example_fs frozen_clock fresh_process))
        = Suc (load_attempts fresh_process)"
    by simp
  from C6_version_unreadable_only_failure
    [of versionless_loader example_fs frozen_clock fresh_process AttributeError successful_setup]
    n l d
  have 2: "fst (setup_py versionless_loader example_fs frozen_clock fresh_process)
        = Inl AttributeError \<and>
      exit_status successful_setup
        (fst (setup_py versionless_loader example_fs frozen_clock fresh_process)) \<noteq> 0"
    by blast
  from 1 z have "load_attempts (snd (setup_py flaky_loader example_fs frozen_clock fresh_process))
      = Suc 0" by simp
  with 1 2 show ?thesis by blast
qed

text \<open>
  C7, as amended. When the base version can be read, invoking the script twice in
  succession in one process raises in neither invocation, and each invocation's record
  is determined by its own clock reading: it is the record that invocation would
  produce on its own, whichever of the two runs first. The interpreter state is shared
  all the same: every invocation appends \<^verbatim>\<open>./src\<close> to \<^verbatim>\<open>sys.path\<close> and the first one
  leaves the package in the module cache; no record depends on it.
\<close>

theorem C7_two_invocations:
  assumes "read_base_version ld (p\<lparr>sys_path := sys_path p @ [''./src'']\<rparr>) = Inr v"
  shows "fst (setup_py ld fs t1 p) = Inr (setup_call v (local_version t1) fs) \<and>
         fst (setup_py ld fs t2 (snd (setup_py ld fs t1 p)))
           = Inr (setup_call v (local_version t2) fs) \<and>
         fst (setup_py ld fs t2 (snd (setup_py ld fs t1 p))) = fst (setup_py ld fs t2 p) \<and>
         fst (setup_py ld fs t1 (snd (setup_py ld fs t2 p))) = fst (setup_py ld fs t1 p)"
proof -
  let ?p1 = "p\<lparr>sys_path := sys_path p @ [''./src'']\<rparr>"
  from assms obtain m where m: "fst (import_package ld ?p1) = Inr m" "dunder_version m = Some v"
    by (auto simp: read_base_version_Inr)
  have alone: "fst (setup_py ld fs t p) = Inr (setup_call v (local_version t) fs)" for t
    using assms by (simp add: setup_py_result)
  have after: "fst (setup_py ld fs t (snd (setup_py ld fs t' p)))
      = Inr (setup_call v (local_version t) fs)" for t t'
  proof -
    let ?q = "snd (setup_py ld fs t' p)"
    have "sys_modules ?q ''test_databricks_asset_bundles'' = Some m"
      using import_package_cached [OF m(1)] by (simp add: setup_py_state)
    then have "import_package ld (?q\<lparr>sys_path := sys_path ?q @ [''./src'']\<rparr>)
        = (Inr m, ?q\<lparr>sys_path := sys_path ?q @ [''./src'']\<rparr>)"
      by (intro import_package_hit) simp
    with m(2) have "read_base_version ld (?q\<lparr>sys_path := sys_path ?q @ [''./src'']\<rparr>) = Inr v"
      by (simp add: read_base_version_def getattr_version_def)
    then show ?thesis by (simp add: setup_py_result)
  qed
  from alone after show ?thesis by simp
qed

theorem C7_two_invocations_witness:
  "read_base_version working_loader
     (fresh_process\<lparr>sys_path := sys_path fresh_process @ [''./src'']\<rparr>) = Inr ''0.0.1'' \<and>
   fst (setup_py working_loader example_fs later_clock
         (snd (setup_py working_loader example_fs frozen_clock fresh_process)))
     = Inr (setup_call ''0.0.1'' (local_version later_clock) example_fs) \<and>
   fst (setup_py working_loader example_fs later_clock
         (snd (setup_py working_loader example_fs frozen_clock fresh_process)))
     = fst (setup_py working_loader example_fs later_clock fresh_process)"
proof -
  have h: "read_base_version working_loader
     (fresh_process\<lparr>sys_path := sys_path fresh_process @ [''./src'']\<rparr>) = Inr ''0.0.1''"
    by (simp add: read_base_version_def import_package_def getattr_version_def working_loader_def fresh_process_def)
  from C7_two_invocations [OF h, of example_fs frozen_clock later_clock] h
  show ?thesis by blast
qed

text \<open>
  C7 as stated does not hold. An invocation raises when the package cannot be loaded;
  and mutable state is shared between the invocations: after the second invocation
  \<^verbatim>\<open>sys.path\<close> holds \<^verbatim>\<open>./src\<close> twice, so the state it leaves differs from the state a
  single invocation leaves.
\<close>

theorem C7_shared_state_counterexample:
  "fst (setup_py failing_loader example_fs frozen_clock fresh_process) = Inl ImportError \<and>
   sys_path (snd (setup_py working_loader example_fs frozen_clock fresh_process)) = [''./src''] \<and>
   sys_path (snd (setup_py working_loader example_fs frozen_clock
                    (snd (setup_py working_loader example_fs frozen_clock fresh_process))))
     = [''./src'', ''./src''] \<and>
   snd (setup_py working_loader example_fs frozen_clock
          (snd (setup_py working_loader example_fs frozen_clock fresh_process)))
     \<noteq> snd (setup_py working_loader example_fs frozen_clock fresh_process)"
proof -
  have 1: "fst (setup_py failing_loader example_fs frozen_clock fresh_process) = Inl ImportError"
    by (simp add: setup_py_result read_base_version_def import_package_def getattr_version_def failing_loader_def fresh_process_def)
  have 2: "sys_path (snd (setup_py working_loader example_fs frozen_clock fresh_process))
      = [''./src'']"
    by (simp add: setup_py_state read_base_version_def import_package_def getattr_version_def working_loader_def fresh_process_def)
  have 3: "sys_path (snd (setup_py working_loader example_fs frozen_clock
                    (snd (setup_py working_loader example_fs frozen_clock fresh_process))))
      = [''./src'', ''./src'']"
    by (simp add: setup_py_state read_base_version_def import_package_def getattr_version_def working_loader_def fresh_process_def)
  from 2 3 have "snd (setup_py working_loader example_fs frozen_clock
          (snd (setup_py working_loader example_fs frozen_clock fresh_process)))
     \<noteq> snd (setup_py working_loader example_fs frozen_clock fresh_process)"
    by (metis list.inject not_Cons_self2)
  with 1 2 3 show ?thesis by (intro conjI)
qed

text \<open>
  C8. The full version string is never empty, whatever the base version and the clock
  reading; and two builds whose clock readings are at least one second apart, in either
  order, never get the same string (even for different base versions, since the suffix
  has a fixed length).
\<close>

theorem C8_nonempty_unique:
  "full_version base_version now \<noteq> [] \<and>
   (valid_datetime a \<and> valid_datetime b \<and> 1000000 \<le> \<bar>datetime_sub b a\<bar> \<longrightarrow>
      full_version base1 a \<noteq> full_version base2 b)"
proof -
  have "full_version base1 a \<noteq> full_version base2 b"
    if v: "valid_datetime a" "valid_datetime b" and s: "1000000 \<le> \<bar>datetime_sub b a\<bar>"
  proof
    assume "full_version base1 a = full_version base2 b"
    then have "base1 @ CHR ''+'' # local_version a = base2 @ CHR ''+'' # local_version b"
      by (simp add: full_version_def)
    with plus_not_in_local_version [OF v(1)] plus_not_in_local_version [OF v(2)]
    have "local_version a = local_version b" by (rule after_last_separator)
    with local_version_distinct [OF v s] show False by simp
  qed
  then show ?thesis by (simp add: full_version_def)
qed

theorem C8_nonempty_unique_witness:
  "full_version '''' \<lparr>year = 2024, month = 2, day = 29, hour = 23, minute = 59, second = 59,
                       microsecond = 0\<rparr> \<noteq> [] \<and>
   valid_datetime \<lparr>year = 2024, month = 2, day = 29, hour = 23, minute = 59, second = 59,
                   microsecond = 0\<rparr> \<and>
   valid_datetime \<lparr>year = 2024, month = 3, day = 1, hour = 0, minute = 0, second = 0,
                   microsecond = 0\<rparr> \<and>
   1000000 \<le> \<bar>datetime_sub \<lparr>year = 2024, month = 3, day = 1, hour = 0, minute = 0, second = 0,
                             microsecond = 0\<rparr>
                           \<lparr>year = 2024, month = 2, day = 29, hour = 23, minute = 59,
                             second = 59, microsecond = 0\<rparr>\<bar> \<and>
   full_version ''1.0'' \<lparr>year = 2024, month = 2, day = 29, hour = 23, minute = 59,
                          second = 59, microsecond = 0\<rparr>
     \<noteq> full_version ''1.0'' \<lparr>year = 2024, month = 3, day = 1, hour = 0, minute = 0, second = 0,
                                microsecond = 0\<rparr>"
proof -
  let ?a = "\<lparr>year = 2024, month = 2, day = 29, hour = 23, minute = 59, second = 59,
             microsecond = 0\<rparr>"
  let ?b = "\<lparr>year = 2024, month = 3, day = 1, hour = 0, minute = 0, second = 0,
             microsecond = 0\<rparr>"
  have va: "valid_datetime ?a"
    by (simp add: valid_datetime_def days_in_month_def DAYS_IN_MONTH_def is_leap_def)
  have vb: "valid_datetime ?b"
    by (simp add: valid_datetime_def days_in_month_def DAYS_IN_MONTH_def is_leap_def)
  have s: "datetime_sub ?b ?a = 1000000"
    by (simp add: datetime_sub_def toordinal_def ymd2ord_def days_before_year_def
        days_before_month_def DAYS_BEFORE_MONTH_def is_leap_def Let_def)
  then have ge: "1000000 \<le> \<bar>datetime_sub ?b ?a\<bar>" by simp
  from C8_nonempty_unique [of "''''" ?a ?a ?b "''1.0''" "''1.0''"] va vb ge
  show ?thesis by simp
qed

text \<open>
  C9. \<^verbatim>\<open>test_main\<close> is skipped exactly when \<^verbatim>\<open>CI\<close> or \<^verbatim>\<open>GITHUB_ACTIONS\<close> is set to
  \<^verbatim>\<open>true\<close>; when it runs, it passes exactly when the data frame has more than 5 rows.
\<close>

theorem C9_test_main:
  "(test_main environ taxis = Skipped \<longleftrightarrow>
      environ ''CI'' = Some ''true'' \<or> environ ''GITHUB_ACTIONS'' = Some ''true'') \<and>
   (test_main environ taxis \<noteq> Skipped \<longrightarrow>
      (test_main environ taxis = Passed \<longleftrightarrow> 5 < count taxis))"
  by (simp add: test_main_def skipif_condition_def getenv_def)

theorem C9_test_main_witness:
  "test_main [''CI'' \<mapsto> ''false'']
     [example_row, example_row, example_row, example_row, example_row, example_row] = Passed \<and>
   test_main [''CI'' \<mapsto> ''false''] [example_row, example_row] \<noteq> Passed \<and>
   test_main [''GITHUB_ACTIONS'' \<mapsto> ''true''] [example_row] = Skipped"
  using C9_test_main [of "[''CI'' \<mapsto> ''false'']"
      "[example_row, example_row, example_row, example_row, example_row, example_row]"]
    C9_test_main [of "[''CI'' \<mapsto> ''false'']" "[example_row, example_row]"]
    C9_test_main [of "[''GITHUB_ACTIONS'' \<mapsto> ''true'']" "[example_row]"]
  by (simp add: count_def)

text \<open>
  C10. Two invocations at different clock readings hand over records that agree on
  \<^verbatim>\<open>name\<close>, \<^verbatim>\<open>url\<close>, \<^verbatim>\<open>author\<close>, \<^verbatim>\<open>description\<close>, \<^verbatim>\<open>packages\<close>, \<^verbatim>\<open>package_dir\<close>,
  \<^verbatim>\<open>entry_points\<close> and \<^verbatim>\<open>install_requires\<close>; only \<^verbatim>\<open>version\<close> depends on the clock.
\<close>

theorem C10_only_version_varies:
  assumes "fst (setup_py ld fs utcnow1 p1) = Inr k1"
    and "fst (setup_py ld fs utcnow2 p2) = Inr k2"
  shows "name k1 = name k2 \<and> url k1 = url k2 \<and> author k1 = author k2 \<and>
         description k1 = description k2 \<and> packages k1 = packages k2 \<and>
         package_dir k1 = package_dir k2 \<and> entry_points k1 = entry_points k2 \<and>
         install_requires k1 = install_requires k2 \<and>
         k1 = k2\<lparr>version := version k1\<rparr>"
  using assms by (auto simp: setup_py_result setup_call_def split: sum.splits)

theorem C10_only_version_varies_witness:
  "fst (setup_py working_loader example_fs frozen_clock fresh_process)
     = Inr (setup_call ''0.0.1'' (local_version frozen_clock) example_fs) \<and>
   fst (setup_py working_loader example_fs later_clock fresh_process)
     = Inr (setup_call ''0.0.1'' (local_version later_clock) example_fs) \<and>
   packages (setup_call ''0.0.1'' (local_version frozen_clock) example_fs)
     = packages (setup_call ''0.0.1'' (local_version later_clock) example_fs) \<and>
   install_requires (setup_call ''0.0.1'' (local_version frozen_clock) example_fs)
     = install_requires (setup_call ''0.0.1'' (local_version later_clock) example_fs)"
proof -
  have r: "fst (setup_py working_loader example_fs t fresh_process)
     = Inr (setup_call ''0.0.1'' (local_version t) example_fs)" for t
    by (simp add: setup_py_result read_base_version_def import_package_def getattr_version_def working_loader_def fresh_process_def)
  from C10_only_version_varies [OF r [of frozen_clock] r [of later_clock]] r
  show ?thesis by blast
qed

end
